theory Spec2Isabelle
  imports Complex_Main "HOL-Library.AList" "HOL-Library.Char_ord" "HOL-Library.List_Lexorder"
    "HOL-Library.Product_Lexorder" "HOL-Library.Log_Nat"
begin

section \<open>Data model\<close>

subsection \<open>Floating-point numbers\<close>

text \<open>
  The numbers of the program are IEEE 754 binary64 values: a finite value (a real number
  that 53 bits of mantissa and an exponent of at least \<open>-1074\<close> represent), NaN or one of
  the two infinities.  The two zeros are not distinguished.
\<close>

datatype pyfloat = Fin real | NaN | PosInf | NegInf

text \<open>Rounding to the nearest integer, a tie to the even one.\<close>

definition round_half_even :: "real \<Rightarrow> int" where
  "round_half_even x =
     (let f = \<lfloor>x\<rfloor>; d = x - of_int f
      in if d < 1/2 then f else if d > 1/2 then f + 1 else if even f then f else f + 1)"

text \<open>The integer \<open>k\<close> with \<open>2 ^ k \<le> x < 2 ^ (k + 1)\<close>, for a positive \<open>x\<close>.\<close>

definition floor_log2 :: "real \<Rightarrow> int" where
  "floor_log2 x = (if 1 \<le> x then bitlen \<lfloor>x\<rfloor> - 1 else - bitlen (\<lceil>1 / x\<rceil> - 1))"

text \<open>
  The exponent of the last mantissa bit of the binary64 values around \<open>x\<close>: 52 below the
  exponent of \<open>x\<close>, and \<open>-1074\<close> in the subnormal range.
\<close>

definition ulp_exp :: "real \<Rightarrow> int" where
  "ulp_exp x = max (floor_log2 \<bar>x\<bar> - 52) (- 1074)"

text \<open>The binary64 value nearest to a real number, a tie to the even mantissa.\<close>

definition rnd :: "real \<Rightarrow> real" where
  "rnd x = (if x = 0 then 0
            else of_int (round_half_even (x / 2 powi ulp_exp x)) * 2 powi ulp_exp x)"

definition is_double :: "real \<Rightarrow> bool" where
  "is_double x \<longleftrightarrow> rnd x = x"

text \<open>The result of an operation whose exact value is \<open>x\<close>: rounded, an infinity on overflow.\<close>

definition fl :: "real \<Rightarrow> pyfloat" where
  "fl x = (let r = rnd x
           in if 2 ^ 1024 \<le> r then PosInf else if r \<le> - (2 ^ 1024) then NegInf else Fin r)"

fun fneg :: "pyfloat \<Rightarrow> pyfloat" where
  "fneg (Fin a) = Fin (- a)"
| "fneg NaN = NaN"
| "fneg PosInf = NegInf"
| "fneg NegInf = PosInf"

fun fadd :: "pyfloat \<Rightarrow> pyfloat \<Rightarrow> pyfloat" where
  "fadd (Fin a) (Fin b) = fl (a + b)"
| "fadd NaN _ = NaN"
| "fadd _ NaN = NaN"
| "fadd PosInf NegInf = NaN"
| "fadd NegInf PosInf = NaN"
| "fadd PosInf _ = PosInf"
| "fadd _ PosInf = PosInf"
| "fadd NegInf _ = NegInf"
| "fadd _ NegInf = NegInf"

definition fsub :: "pyfloat \<Rightarrow> pyfloat \<Rightarrow> pyfloat" where
  "fsub a b = fadd a (fneg b)"

text \<open>The infinity of the sign of \<open>a\<close>, NaN for \<open>a = 0\<close>.\<close>

definition signed_inf :: "real \<Rightarrow> pyfloat" where
  "signed_inf a = (if a = 0 then NaN else if 0 < a then PosInf else NegInf)"

fun fmul :: "pyfloat \<Rightarrow> pyfloat \<Rightarrow> pyfloat" where
  "fmul (Fin a) (Fin b) = fl (a * b)"
| "fmul NaN _ = NaN"
| "fmul _ NaN = NaN"
| "fmul (Fin a) PosInf = signed_inf a"
| "fmul (Fin a) NegInf = signed_inf (- a)"
| "fmul PosInf (Fin b) = signed_inf b"
| "fmul NegInf (Fin b) = signed_inf (- b)"
| "fmul PosInf PosInf = PosInf"
| "fmul NegInf NegInf = PosInf"
| "fmul PosInf NegInf = NegInf"
| "fmul NegInf PosInf = NegInf"

text \<open>The comparisons \<^verbatim>\<open><\<close> and \<^verbatim>\<open><=\<close>: false as soon as one side is NaN.\<close>

fun flt :: "pyfloat \<Rightarrow> pyfloat \<Rightarrow> bool" where
  "flt (Fin a) (Fin b) = (a < b)"
| "flt NaN _ = False"
| "flt _ NaN = False"
| "flt NegInf NegInf = False"
| "flt NegInf _ = True"
| "flt PosInf _ = False"
| "flt (Fin a) PosInf = True"
| "flt (Fin a) NegInf = False"

fun fle :: "pyfloat \<Rightarrow> pyfloat \<Rightarrow> bool" where
  "fle (Fin a) (Fin b) = (a \<le> b)"
| "fle NaN _ = False"
| "fle _ NaN = False"
| "fle NegInf _ = True"
| "fle PosInf PosInf = True"
| "fle PosInf _ = False"
| "fle (Fin a) PosInf = True"
| "fle (Fin a) NegInf = False"

text \<open>The position of a value in a sorted array; NaN sorts last.\<close>

fun sort_position :: "pyfloat \<Rightarrow> nat \<times> real" where
  "sort_position NegInf = (0, 0)"
| "sort_position (Fin a) = (1, a)"
| "sort_position PosInf = (2, 0)"
| "sort_position NaN = (3, 0)"

subsection \<open>Frames\<close>

text \<open>
  The validation engine of \<^verbatim>\<open>data_validator.py\<close> works on a pandas DataFrame.
  A DataFrame is modelled column-major: an index length (\<^verbatim>\<open>len(df)\<close>) and an ordered
  list of columns, each with its name, its dtype and its cells.  A numeric cell holds a
  float; the cells of an integer column are taken by their float value.
\<close>

datatype cell = Null | Num pyfloat | Str string | Bool bool | ListV "real list"

datatype dtype = Int64 | Float64 | BoolD | Object | Category | Datetime64

fun dtype_str :: "dtype \<Rightarrow> string" where
  "dtype_str Int64 = ''int64''"
| "dtype_str Float64 = ''float64''"
| "dtype_str BoolD = ''bool''"
| "dtype_str Object = ''object''"
| "dtype_str Category = ''category''"
| "dtype_str Datetime64 = ''datetime64[ns]''"

text \<open>\<^verbatim>\<open>select_dtypes(include=["number"])\<close> keeps the integer and float columns.\<close>

fun is_number :: "dtype \<Rightarrow> bool" where
  "is_number Int64 = True"
| "is_number Float64 = True"
| "is_number _ = False"

record column =
  col_name :: string
  col_dtype :: dtype
  col_values :: "cell list"

record dataframe =
  index_len :: nat
  df_columns :: "column list"

datatype py_error = KeyError "string list" | TypeError | ZeroDivisionError

definition column_names :: "dataframe \<Rightarrow> string list" where
  "column_names df = map col_name (df_columns df)"

fun is_numeric_cell :: "cell \<Rightarrow> bool" where
  "is_numeric_cell Null = True"
| "is_numeric_cell (Num _) = True"
| "is_numeric_cell _ = False"

fun float_cell :: "cell \<Rightarrow> bool" where
  "float_cell (Num (Fin a)) = is_double a"
| "float_cell _ = True"

text \<open>
  A well-formed DataFrame: column names are unique, every column has one cell per row,
  a column of a numeric dtype holds numbers and nulls only, and every finite number in a
  cell is a binary64 value.
\<close>

definition wf_df :: "dataframe \<Rightarrow> bool" where
  "wf_df df \<longleftrightarrow>
     distinct (column_names df) \<and>
     list_all (\<lambda>c. length (col_values c) = index_len df) (df_columns df) \<and>
     list_all (\<lambda>c. is_number (col_dtype c) \<longrightarrow> list_all is_numeric_cell (col_values c))
       (df_columns df) \<and>
     list_all (\<lambda>c. list_all float_cell (col_values c)) (df_columns df)"

text \<open>\<^verbatim>\<open>df.empty\<close>: one of the two axes has length 0.\<close>

definition df_empty :: "dataframe \<Rightarrow> bool" where
  "df_empty df \<longleftrightarrow> index_len df = 0 \<or> df_columns df = []"

text \<open>\<^verbatim>\<open>isna\<close>: the null marker and the float NaN are both missing values.\<close>

fun isna :: "cell \<Rightarrow> bool" where
  "isna Null = True"
| "isna (Num NaN) = True"
| "isna _ = False"

definition dropna :: "cell list \<Rightarrow> cell list" where
  "dropna xs = filter (\<lambda>x. \<not> isna x) xs"

text \<open>\<^verbatim>\<open>s.isna().sum()\<close>\<close>

definition isna_sum :: "cell list \<Rightarrow> nat" where
  "isna_sum xs = length (filter isna xs)"

text \<open>
  \<^verbatim>\<open>df[col]\<close>: the column of that name, KeyError when there is none.
\<close>

definition getitem :: "dataframe \<Rightarrow> string \<Rightarrow> py_error + column" where
  "getitem df c =
     (case find (\<lambda>k. col_name k = c) (df_columns df) of
        None \<Rightarrow> Inl (KeyError [c])
      | Some k \<Rightarrow> Inr k)"

section \<open>Missing-value analyzer\<close>

text \<open>
  The division of a count by \<^verbatim>\<open>n\<close> is the library's element-wise true division of
  an integer Series by a Python int: a zero divisor gives NaN for 0/0 and an infinity
  otherwise, never an exception; any other quotient is rounded to a float.
\<close>

definition series_div :: "nat \<Rightarrow> nat \<Rightarrow> pyfloat" where
  "series_div k n =
     (if n = 0 then (if k = 0 then NaN else PosInf) else fl (rnd (real k) / rnd (real n)))"

record missing_entry =
  missing_count :: nat
  missing_pct :: pyfloat

record missing_report =
  rows :: nat
  columns :: nat
  per_column :: "(string \<times> missing_entry) list"

definition missing_summary :: "dataframe \<Rightarrow> missing_report" where
  "missing_summary df =
     (let n = index_len df;
          col_summary =
            map (\<lambda>c. (col_name c,
                       \<lparr>missing_count = isna_sum (col_values c),
                        missing_pct = series_div (isna_sum (col_values c)) n\<rparr>))
              (df_columns df)
      in \<lparr>rows = n, columns = length (df_columns df), per_column = col_summary\<rparr>)"

section \<open>Dtype checker\<close>

text \<open>
  Python dictionaries are association lists in insertion order; an assignment
  \<^verbatim>\<open>d[k] = v\<close> is \<^const>\<open>AList.update\<close> (in place for a known key, appended otherwise) and
  \<^verbatim>\<open>d.get(k)\<close> is \<^const>\<open>map_of\<close>.
\<close>

record mismatch =
  expected :: string
  actual :: "string option"

record dtype_report =
  actual_dtypes :: "(string \<times> string) list"
  dtype_mismatches :: "(string \<times> mismatch) list"

definition dtypes_dict :: "dataframe \<Rightarrow> (string \<times> string) list" where
  "dtypes_dict df =
     fold (\<lambda>c acc. AList.update (col_name c) (dtype_str (col_dtype c)) acc) (df_columns df) []"

definition dtype_step ::
  "(string \<times> string) list \<Rightarrow> string \<times> string \<Rightarrow> (string \<times> mismatch) list \<Rightarrow> (string \<times> mismatch) list"
where
  "dtype_step act_dict ce issues =
     (let c = fst ce; exp = snd ce; act = map_of act_dict c
      in if act \<noteq> Some exp then AList.update c \<lparr>expected = exp, actual = act\<rparr> issues
         else issues)"

definition dtype_issues :: "dataframe \<Rightarrow> (string \<times> string) list option \<Rightarrow> dtype_report" where
  "dtype_issues df expected_schema =
     (let act_dict = dtypes_dict df;
          issues =
            (case expected_schema of
               None \<Rightarrow> []
             | Some exp_items \<Rightarrow>
                 (if exp_items \<noteq> [] then fold (dtype_step act_dict) exp_items [] else []))
      in \<lparr>actual_dtypes = act_dict, dtype_mismatches = issues\<rparr>)"

section \<open>Duplicate detector\<close>

text \<open>
  \<^verbatim>\<open>DataFrame.duplicated(subset)\<close> of the library, in the order of its own steps:
  an empty frame gives an empty mask at once, before \<^verbatim>\<open>subset\<close> is looked at;
  then the names of \<^verbatim>\<open>subset\<close> that are no column raise a KeyError carrying them,
  sorted; then the compared cells are hashed, which raises a TypeError on a list cell;
  then a row is flagged when an earlier row agrees with it on the compared columns
  (a null equals a null).
\<close>

definition column_cells :: "dataframe \<Rightarrow> string \<Rightarrow> cell list" where
  "column_cells df c =
     (case find (\<lambda>k. col_name k = c) (df_columns df) of
        None \<Rightarrow> []
      | Some k \<Rightarrow> col_values k)"

fun hashable :: "cell \<Rightarrow> bool" where
  "hashable (ListV _) = False"
| "hashable _ = True"

fun seen_mask :: "'a list \<Rightarrow> 'a list \<Rightarrow> bool list" where
  "seen_mask seen [] = []"
| "seen_mask seen (k # ks) = (k \<in> set seen) # seen_mask (k # seen) ks"

definition row_keys :: "dataframe \<Rightarrow> string list \<Rightarrow> cell list list" where
  "row_keys df subset_cols =
     map (\<lambda>i. map (\<lambda>c. column_cells df c ! i) subset_cols) [0..<index_len df]"

definition duplicated :: "dataframe \<Rightarrow> string list option \<Rightarrow> py_error + bool list" where
  "duplicated df subset_cols =
     (if df_empty df then Inr []
      else
        let subset' = (case subset_cols of None \<Rightarrow> column_names df | Some s \<Rightarrow> s);
            diff = filter (\<lambda>c. c \<notin> set (column_names df)) subset'
        in if diff \<noteq> [] then Inl (KeyError (sort (remdups diff)))
           else if \<not> list_all (\<lambda>c. list_all hashable (column_cells df c)) subset'
           then Inl TypeError
           else Inr (seen_mask [] (row_keys df subset')))"

text \<open>A row as \<^verbatim>\<open>to_dict(orient="records")\<close> gives it: every column, by name.\<close>

definition row_record :: "dataframe \<Rightarrow> nat \<Rightarrow> (string \<times> cell) list" where
  "row_record df i = map (\<lambda>c. (col_name c, col_values c ! i)) (df_columns df)"

text \<open>\<^verbatim>\<open>df[mask]\<close>: the row positions the mask flags, in index order.\<close>

definition masked_rows :: "bool list \<Rightarrow> nat list" where
  "masked_rows flags = filter (\<lambda>i. flags ! i) [0..<length flags]"

record duplicate_report =
  duplicate_count :: nat
  sample_rows :: "(string \<times> cell) list list"

definition duplicates :: "dataframe \<Rightarrow> string list option \<Rightarrow> py_error + duplicate_report" where
  "duplicates df subset_cols =
     (case duplicated df subset_cols of
        Inl e \<Rightarrow> Inl e
      | Inr dup_mask \<Rightarrow>
          let count = length (filter (\<lambda>b. b) dup_mask);
              sample = (if count \<noteq> 0
                        then map (row_record df) (take 5 (masked_rows dup_mask))
                        else [])
          in Inr \<lparr>duplicate_count = count, sample_rows = sample\<rparr>)"

section \<open>Cardinality analyzer\<close>

text \<open>
  \<^verbatim>\<open>head(n)\<close> of a Series and the slice \<^verbatim>\<open>[:n]\<close>: the first \<open>n\<close> entries, and all
  but the last \<open>-n\<close> for a negative \<open>n\<close>.
\<close>

definition head :: "int \<Rightarrow> 'a list \<Rightarrow> 'a list" where
  "head n xs = (if 0 \<le> n then take (nat n) xs else take (length xs - nat (- n)) xs)"

text \<open>The distinct values of a list in first-seen order.\<close>

definition first_seen :: "'a list \<Rightarrow> 'a list" where
  "first_seen xs = rev (remdups (rev xs))"

text \<open>
  \<^verbatim>\<open>value_counts(dropna=False)\<close>: hashing a list cell raises a TypeError; otherwise one
  entry per distinct value (null is one of them), most frequent first, ties in first-seen
  order.
\<close>

definition value_counts :: "cell list \<Rightarrow> py_error + (cell \<times> nat) list" where
  "value_counts xs =
     (if \<not> list_all hashable xs then Inl TypeError
      else Inr (sort_key (\<lambda>vk. - int (snd vk))
                  (map (\<lambda>v. (v, count_list xs v)) (first_seen xs))))"

datatype cardinality_entry =
    Cardinality (unique: nat) (top_values: "(cell \<times> nat) list")
  | CardinalityError (error: string)

definition cardinality_step ::
  "dataframe \<Rightarrow> int \<Rightarrow> string \<Rightarrow> (string \<times> cardinality_entry) list \<Rightarrow> (string \<times> cardinality_entry) list"
where
  "cardinality_step df top_n col report =
     (case (case getitem df col of Inl e \<Rightarrow> Inl e | Inr k \<Rightarrow> value_counts (col_values k)) of
        Inr vc \<Rightarrow> AList.update col (Cardinality (length vc) (head top_n vc)) report
      | Inl e \<Rightarrow> AList.update col (CardinalityError ''could not compute value_counts'') report)"

definition cardinality_report :: "dataframe \<Rightarrow> int \<Rightarrow> (string \<times> cardinality_entry) list" where
  "cardinality_report df top_n = fold (cardinality_step df top_n) (column_names df) []"

section \<open>Outlier detector\<close>

text \<open>
  The interpolation step of the library's quantile: \<^verbatim>\<open>a + (b - a) * t\<close>, and
  \<^verbatim>\<open>b - (b - a) * (1 - t)\<close> from \<^verbatim>\<open>t = 0.5\<close> on, every operation rounded.
\<close>

definition lerp :: "pyfloat \<Rightarrow> pyfloat \<Rightarrow> real \<Rightarrow> pyfloat" where
  "lerp a b t =
     (let diff_b_a = fsub b a
      in if 1/2 \<le> t then fsub b (fmul diff_b_a (fl (1 - t)))
         else fadd a (fmul diff_b_a (Fin t)))"

text \<open>
  \<^verbatim>\<open>Series.quantile(q)\<close> on a non-empty series of floats without NaN, by linear
  interpolation: the values are sorted, the position is \<^verbatim>\<open>(n - 1) * q\<close>, the two
  neighbours are the values at its floor and one above (both the last value when the
  position reaches \<^verbatim>\<open>n - 1\<close>), and the weight is the position minus the index of the
  lower neighbour, which the library has set to \<^verbatim>\<open>-1\<close> in that last case.
  The library's result on an empty series (NaN) is not modelled:
  \<^verbatim>\<open>outlier_summary\<close> tests \<^verbatim>\<open>s.empty\<close> first.
\<close>

definition quantile :: "pyfloat list \<Rightarrow> real \<Rightarrow> pyfloat" where
  "quantile xs q =
     (let arr = sort_key sort_position xs;
          last_index = length xs - 1;
          virtual_index = rnd (rnd (real last_index) * q);
          above_bounds = (rnd (real last_index) \<le> virtual_index);
          previous_index = (if above_bounds then last_index else nat \<lfloor>virtual_index\<rfloor>);
          next_index = (if above_bounds then last_index else previous_index + 1);
          gamma = (if above_bounds then rnd (virtual_index + 1)
                   else rnd (virtual_index - of_int \<lfloor>virtual_index\<rfloor>))
      in lerp (arr ! previous_index) (arr ! next_index) gamma)"

text \<open>The numbers of a series; arithmetic on any other cell raises a TypeError.\<close>

fun numeric_values :: "cell list \<Rightarrow> py_error + pyfloat list" where
  "numeric_values [] = Inr []"
| "numeric_values (Num x # cs) =
     (case numeric_values cs of Inl e \<Rightarrow> Inl e | Inr xs \<Rightarrow> Inr (x # xs))"
| "numeric_values (_ # cs) = Inl TypeError"

definition iqr_bounds :: "cell list \<Rightarrow> pyfloat \<Rightarrow> py_error + pyfloat \<times> pyfloat" where
  "iqr_bounds series factor =
     (case numeric_values series of
        Inl e \<Rightarrow> Inl e
      | Inr xs \<Rightarrow>
          let q1 = quantile xs (1/4);
              q3 = quantile xs (3/4);
              iqr = fsub q3 q1
          in Inr (fsub q1 (fmul factor iqr), fadd q3 (fmul factor iqr)))"

datatype outlier_entry =
    NoValues
  | Bounds (n_nonnull: nat) (low_bound: pyfloat) (high_bound: pyfloat) (below: nat) (above: nat)

text \<open>The body of the loop over the selected columns: the entry of one column.\<close>

definition column_outliers :: "cell list \<Rightarrow> pyfloat \<Rightarrow> py_error + outlier_entry" where
  "column_outliers vals factor =
     (let s = dropna vals
      in if s = [] then Inr NoValues
         else
           (case iqr_bounds s factor of
              Inl e \<Rightarrow> Inl e
            | Inr (low, high) \<Rightarrow>
                (case numeric_values s of
                   Inl e \<Rightarrow> Inl e
                 | Inr xs \<Rightarrow>
                     let n_low = length (filter (\<lambda>x. flt x low) xs);
                         n_high = length (filter (\<lambda>x. flt high x) xs)
                     in Inr (Bounds (length s) low high n_low n_high))))"

definition outlier_step ::
  "dataframe \<Rightarrow> pyfloat \<Rightarrow> string \<Rightarrow> (string \<times> outlier_entry) list
     \<Rightarrow> py_error + (string \<times> outlier_entry) list"
where
  "outlier_step df factor col summary =
     (case getitem df col of
        Inl e \<Rightarrow> Inl e
      | Inr k \<Rightarrow>
          (case column_outliers (col_values k) factor of
             Inl e \<Rightarrow> Inl e
           | Inr entry \<Rightarrow> Inr (AList.update col entry summary)))"

fun outlier_loop ::
  "dataframe \<Rightarrow> pyfloat \<Rightarrow> string list \<Rightarrow> (string \<times> outlier_entry) list
     \<Rightarrow> py_error + (string \<times> outlier_entry) list"
where
  "outlier_loop df factor [] summary = Inr summary"
| "outlier_loop df factor (col # cols) summary =
     (case outlier_step df factor col summary of
        Inl e \<Rightarrow> Inl e
      | Inr summary' \<Rightarrow> outlier_loop df factor cols summary')"

definition outlier_summary ::
  "dataframe \<Rightarrow> string list option \<Rightarrow> pyfloat \<Rightarrow> py_error + (string \<times> outlier_entry) list"
where
  "outlier_summary df numeric_cols factor =
     (let numeric_cols' =
            (case numeric_cols of
               None \<Rightarrow> map col_name (filter (\<lambda>c. is_number (col_dtype c)) (df_columns df))
             | Some cs \<Rightarrow> cs)
      in outlier_loop df factor numeric_cols' [])"

section \<open>Report builder\<close>

record validation_report =
  missing :: missing_report
  duplicates_r :: duplicate_report
  dtypes :: dtype_report
  cardinality :: "(string \<times> cardinality_entry) list"
  outliers :: "(string \<times> outlier_entry) list"

text \<open>
  The dictionary display evaluates its five values in order; the first exception leaves
  \<^verbatim>\<open>validate\<close>, which has no handler.
\<close>

definition validate :: "dataframe \<Rightarrow> (string \<times> string) list option \<Rightarrow> py_error + validation_report" where
  "validate df expected_schema =
     (let m = missing_summary df
      in case duplicates df None of
           Inl e \<Rightarrow> Inl e
         | Inr d \<Rightarrow>
             let t = dtype_issues df expected_schema;
                 c = cardinality_report df 5
             in (case outlier_summary df None (Fin (3/2)) of
                   Inl e \<Rightarrow> Inl e
                 | Inr out \<Rightarrow>
                     Inr \<lparr>missing = m, duplicates_r = d, dtypes = t, cardinality = c,
                          outliers = out\<rparr>))"

section \<open>Schema inferencer\<close>

text \<open>
  Python's \<^verbatim>\<open>round(x, ndigits)\<close> on a float: the exact value of \<open>x\<close> is rounded to
  the nearest multiple of \<open>10 ^ (- ndigits)\<close>, a tie to the even one, and the result is
  the float nearest to that decimal.
\<close>

definition py_round :: "real \<Rightarrow> nat \<Rightarrow> real" where
  "py_round x ndigits = rnd (of_int (round_half_even (x * 10 ^ ndigits)) / 10 ^ ndigits)"

text \<open>
  \<^verbatim>\<open>float(a) / b\<close> for two non-negative integers: ZeroDivisionError for \<open>b = 0\<close>,
  the rounded quotient of the two floats otherwise.
\<close>

definition py_truediv :: "nat \<Rightarrow> nat \<Rightarrow> py_error + real" where
  "py_truediv a b =
     (if b = 0 then Inl ZeroDivisionError else Inr (rnd (rnd (real a) / rnd (real b))))"

record schema_entry =
  dtype_name :: string
  null_count :: nat
  null_pct :: real
  unique_count :: nat
  sample_values :: "cell list"

text \<open>
  \<^verbatim>\<open>nunique\<close> and \<^verbatim>\<open>unique\<close> hash the cells of the column, so a list cell raises a
  TypeError here too, and \<^verbatim>\<open>infer_schema\<close> has no handler.
\<close>

definition unique_values :: "cell list \<Rightarrow> py_error + cell list" where
  "unique_values xs = (if \<not> list_all hashable xs then Inl TypeError else Inr (first_seen xs))"

definition infer_step ::
  "dataframe \<Rightarrow> int \<Rightarrow> string \<Rightarrow> (string \<times> schema_entry) list
     \<Rightarrow> py_error + (string \<times> schema_entry) list"
where
  "infer_step df k col schema =
     (case getitem df col of
        Inl e \<Rightarrow> Inl e
      | Inr s \<Rightarrow>
          let n = index_len df;
              nulls = isna_sum (col_values s)
          in (case (if n \<noteq> 0 then py_truediv nulls n else Inr 0) of
                Inl e \<Rightarrow> Inl e
              | Inr null_frac \<Rightarrow>
                  (case unique_values (dropna (col_values s)) of
                     Inl e \<Rightarrow> Inl e
                   | Inr u \<Rightarrow>
                       Inr (AList.update col
                              \<lparr>dtype_name = dtype_str (col_dtype s),
                               null_count = nulls,
                               null_pct = py_round null_frac 4,
                               unique_count = length u,
                               sample_values = head k u\<rparr> schema))))"

fun infer_loop ::
  "dataframe \<Rightarrow> int \<Rightarrow> string list \<Rightarrow> (string \<times> schema_entry) list
     \<Rightarrow> py_error + (string \<times> schema_entry) list"
where
  "infer_loop df k [] schema = Inr schema"
| "infer_loop df k (col # cols) schema =
     (case infer_step df k col schema of
        Inl e \<Rightarrow> Inl e
      | Inr schema' \<Rightarrow> infer_loop df k cols schema')"

definition infer_schema :: "dataframe \<Rightarrow> int \<Rightarrow> py_error + (string \<times> schema_entry) list" where
  "infer_schema df k = infer_loop df k (column_names df) []"

section \<open>Example inputs\<close>

text \<open>A frame with one float column and no row.\<close>

definition df_no_rows :: dataframe where
  "df_no_rows =
     \<lparr>index_len = 0,
      df_columns = [\<lparr>col_name = ''a'', col_dtype = Float64, col_values = []\<rparr>]\<rparr>"

text \<open>The numeric column of the outlier scenario.\<close>

definition df_scenario :: dataframe where
  "df_scenario =
     \<lparr>index_len = 5,
      df_columns =
        [\<lparr>col_name = ''x'', col_dtype = Float64,
          col_values = [Num (Fin 10), Num (Fin 12), Num (Fin 12), Num (Fin 13), Num (Fin 200)]\<rparr>]\<rparr>"

text \<open>Six rows out of order, two of them missing (a null and a NaN).\<close>

definition df_unsorted :: dataframe where
  "df_unsorted =
     \<lparr>index_len = 6,
      df_columns =
        [\<lparr>col_name = ''x'', col_dtype = Float64,
          col_values = [Num (Fin 13), Null, Num (Fin 200), Num NaN, Num (Fin 10), Num (Fin 12)]\<rparr>]\<rparr>"

text \<open>Decimal fractions, each taken as the float nearest to it.\<close>

definition df_decimal :: dataframe where
  "df_decimal =
     \<lparr>index_len = 5,
      df_columns =
        [\<lparr>col_name = ''x'', col_dtype = Float64,
          col_values = [Num (Fin (rnd (- (15/100)))), Num (Fin (rnd (3/10))),
                        Num (Fin (rnd (4/10))), Num (Fin (rnd (6/10))),
                        Num (Fin (rnd (105/100)))]\<rparr>]\<rparr>"

text \<open>A constant column.\<close>

definition df_constant :: dataframe where
  "df_constant =
     \<lparr>index_len = 2,
      df_columns =
        [\<lparr>col_name = ''x'', col_dtype = Float64, col_values = [Num (Fin 1), Num (Fin 1)]\<rparr>]\<rparr>"

text \<open>Two rows, an integer column and an object column that holds a Python list.\<close>

definition df_with_list :: dataframe where
  "df_with_list =
     \<lparr>index_len = 2,
      df_columns =
        [\<lparr>col_name = ''a'', col_dtype = Int64, col_values = [Num (Fin 1), Num (Fin 1)]\<rparr>,
         \<lparr>col_name = ''l'', col_dtype = Object, col_values = [ListV [1], Str ''u'']\<rparr>]\<rparr>"

text \<open>Three rows, one of them null.\<close>

definition df_one_null :: dataframe where
  "df_one_null =
     \<lparr>index_len = 3,
      df_columns =
        [\<lparr>col_name = ''a'', col_dtype = Float64,
          col_values = [Null, Num (Fin 1), Num (Fin 2)]\<rparr>]\<rparr>"

text \<open>One null in 160 rows.\<close>

definition df_160 :: dataframe where
  "df_160 =
     \<lparr>index_len = 160,
      df_columns =
        [\<lparr>col_name = ''a'', col_dtype = Float64,
          col_values = Null # replicate 159 (Num (Fin 1))\<rparr>]\<rparr>"

section \<open>Properties of the float model\<close>

lemma two_powi_pos [simp]: "0 < (2::real) powi k"
  by (simp add: power_int_def)

lemma two_powi_mono: "j \<le> k \<Longrightarrow> (2::real) powi j \<le> 2 powi k"
  by (rule power_int_increasing) simp_all

lemma two_powi_less_imp: "(2::real) powi j < 2 powi k \<Longrightarrow> j < k"
  using two_powi_mono[of k j] by (cases "j < k") auto

lemma two_powi_Suc: "(2::real) powi (k + 1) = 2 * 2 powi k"
  by (simp add: power_int_add)

lemma floor_log2_bounds:
  assumes "0 < x"
  shows "2 powi floor_log2 x \<le> x" and "x < 2 powi (floor_log2 x + 1)"
proof -
  have "2 powi floor_log2 x \<le> x \<and> x < 2 powi (floor_log2 x + 1)"
  proof (cases "1 \<le> x")
    case True
    define m where "m = \<lfloor>x\<rfloor>"
    have m: "0 < m" using True by (simp add: m_def)
    define k where "k = bitlen m - 1"
    have k0: "0 \<le> k" using bitlen_bounds[OF m] m bitlen_eq_zero_iff[of m] bitlen_nonneg[of m]
      by (simp add: k_def)
    have fl: "floor_log2 x = k" using True by (simp add: floor_log2_def m_def k_def)
    from bitlen_bounds[OF m] have b: "2 ^ nat k \<le> m" "m < 2 ^ nat (k + 1)"
      using k0 by (simp_all add: k_def)
    have "real_of_int (2 ^ nat k) \<le> real_of_int m" using b(1) by linarith
    then have lo: "(2::real) ^ nat k \<le> x" using m_def by (simp add: le_floor_iff)
    have "m + 1 \<le> 2 ^ nat (k + 1)" using b(2) by simp
    then have "real_of_int (m + 1) \<le> real_of_int (2 ^ nat (k + 1))" by linarith
    moreover have "x < real_of_int (m + 1)" unfolding m_def by linarith
    ultimately have "x < real_of_int (2 ^ nat (k + 1))" by linarith
    then have hi: "x < (2::real) ^ nat (k + 1)" by simp
    show ?thesis unfolding fl using lo hi k0 by (simp add: power_int_nonneg_exp)
  next
    case False
    then have x1: "x < 1" by simp
    define y where "y = 1 / x"
    have y1: "1 < y" using assms x1 by (simp add: y_def)
    define c where "c = \<lceil>y\<rceil>"
    have c2: "2 \<le> c" using y1 unfolding c_def by linarith
    have cm: "0 < c - 1" using c2 by simp
    define j where "j = bitlen (c - 1)"
    have j1: "1 \<le> j" using bitlen_eq_zero_iff[of "c - 1"] bitlen_nonneg[of "c - 1"] cm
      unfolding j_def by linarith
    have fl: "floor_log2 x = - j" using False by (simp add: floor_log2_def y_def c_def j_def)
    from bitlen_bounds[OF cm] have b: "2 ^ nat (j - 1) \<le> c - 1" "c - 1 < 2 ^ nat j"
      by (simp_all add: j_def)
    have "c \<le> 2 ^ nat j" using b(2) by simp
    then have "real_of_int c \<le> real_of_int (2 ^ nat j)" by linarith
    moreover have "y \<le> real_of_int c" unfolding c_def by linarith
    ultimately have "y \<le> real_of_int (2 ^ nat j)" by linarith
    then have yhi: "y \<le> 2 ^ nat j" by simp
    have "real_of_int (2 ^ nat (j - 1)) \<le> real_of_int (c - 1)" using b(1) by linarith
    moreover have "real_of_int (c - 1) < y" unfolding c_def by linarith
    ultimately have "real_of_int (2 ^ nat (j - 1)) < y" by linarith
    then have ylo: "2 ^ nat (j - 1) < y" by simp
    have xy: "x = 1 / y" using assms by (simp add: y_def)
    have lo: "1 / 2 ^ nat j \<le> x" unfolding xy using yhi y1
      by (intro divide_left_mono) simp_all
    have hi: "x < 1 / 2 ^ nat (j - 1)" unfolding xy using ylo y1
      by (intro divide_strict_left_mono) simp_all
    have p1: "(2::real) powi (- j) = 1 / 2 ^ nat j" using j1
      by (simp add: power_int_def field_simps)
    have p2: "(2::real) powi (- j + 1) = 1 / 2 ^ nat (j - 1)"
    proof (cases "j = 1")
      case True
      then show ?thesis by simp
    next
      case False
      with j1 have "- j + 1 < 0" by simp
      moreover have "nat (- (- j + 1)) = nat (j - 1)" by simp
      ultimately show ?thesis by (simp add: power_int_def field_simps)
    qed
    show ?thesis unfolding fl p1 p2 using lo hi by simp
  qed
  then show "2 powi floor_log2 x \<le> x" and "x < 2 powi (floor_log2 x + 1)" by simp_all
qed

lemma floor_log2_unique:
  assumes "0 < x" and "2 powi k \<le> x" and "x < 2 powi (k + 1)"
  shows "floor_log2 x = k"
proof (rule antisym)
  have "2 powi floor_log2 x < (2::real) powi (k + 1)"
    using floor_log2_bounds(1)[OF assms(1)] assms(3) by linarith
  then have "floor_log2 x < k + 1" by (rule two_powi_less_imp)
  then show "floor_log2 x \<le> k" by simp
next
  have "(2::real) powi k < 2 powi (floor_log2 x + 1)"
    using floor_log2_bounds(2)[OF assms(1)] assms(2) by linarith
  then have "k < floor_log2 x + 1" by (rule two_powi_less_imp)
  then show "k \<le> floor_log2 x" by simp
qed

lemma floor_log2_mono:
  assumes "0 < x" and "x \<le> y"
  shows "floor_log2 x \<le> floor_log2 y"
proof -
  have y: "0 < y" using assms by simp
  have "2 powi floor_log2 x < (2::real) powi (floor_log2 y + 1)"
    using floor_log2_bounds(1)[OF assms(1)] floor_log2_bounds(2)[OF y] assms(2) by linarith
  then have "floor_log2 x < floor_log2 y + 1" by (rule two_powi_less_imp)
  then show ?thesis by simp
qed

lemma ulp_exp_ge: "- 1074 \<le> ulp_exp x"
  by (simp add: ulp_exp_def)

lemma ulp_exp_minus [simp]: "ulp_exp (- x) = ulp_exp x"
  by (simp add: ulp_exp_def)

lemma ulp_exp_upper:
  assumes "x \<noteq> 0"
  shows "\<bar>x\<bar> < 2 powi (ulp_exp x + 53)"
proof -
  have p: "0 < \<bar>x\<bar>" using assms by simp
  have "floor_log2 \<bar>x\<bar> + 1 \<le> ulp_exp x + 53" by (simp add: ulp_exp_def)
  then have "(2::real) powi (floor_log2 \<bar>x\<bar> + 1) \<le> 2 powi (ulp_exp x + 53)"
    by (rule two_powi_mono)
  with floor_log2_bounds(2)[OF p] show ?thesis by linarith
qed

lemma ulp_exp_lower:
  assumes "x \<noteq> 0" and "- 1074 < ulp_exp x"
  shows "2 powi (ulp_exp x + 52) \<le> \<bar>x\<bar>"
proof -
  have p: "0 < \<bar>x\<bar>" using assms by simp
  from assms(2) have "ulp_exp x = floor_log2 \<bar>x\<bar> - 52" by (simp add: ulp_exp_def max_def split: if_splits)
  then have "ulp_exp x + 52 = floor_log2 \<bar>x\<bar>" by simp
  with floor_log2_bounds(1)[OF p] show ?thesis by simp
qed

lemma ulp_exp_mono:
  assumes "x \<noteq> 0" and "\<bar>x\<bar> \<le> \<bar>y\<bar>"
  shows "ulp_exp x \<le> ulp_exp y"
proof -
  have "floor_log2 \<bar>x\<bar> \<le> floor_log2 \<bar>y\<bar>" using assms by (intro floor_log2_mono) simp_all
  then show ?thesis by (simp add: ulp_exp_def)
qed


subsection \<open>Rounding to an integer\<close>

lemma round_half_even_err: "\<bar>of_int (round_half_even x) - x\<bar> \<le> 1/2"
  unfolding round_half_even_def Let_def by (auto; linarith)

lemma round_half_even_of_int [simp]: "round_half_even (of_int k) = k"
  by (simp add: round_half_even_def)

lemma round_half_even_bounds: "\<lfloor>x\<rfloor> \<le> round_half_even x" "round_half_even x \<le> \<lfloor>x\<rfloor> + 1"
  by (simp_all add: round_half_even_def Let_def)

lemma round_half_even_mono:
  assumes "x \<le> y"
  shows "round_half_even x \<le> round_half_even y"
proof (cases "\<lfloor>x\<rfloor> = \<lfloor>y\<rfloor>")
  case True
  have "x - of_int \<lfloor>x\<rfloor> \<le> y - of_int \<lfloor>y\<rfloor>" using assms True by simp
  then show ?thesis unfolding round_half_even_def Let_def using True by auto
next
  case False
  have "\<lfloor>x\<rfloor> \<le> \<lfloor>y\<rfloor>" using assms by (rule floor_mono)
  with False have "\<lfloor>x\<rfloor> + 1 \<le> \<lfloor>y\<rfloor>" by simp
  with round_half_even_bounds(2)[of x] round_half_even_bounds(1)[of y] show ?thesis by linarith
qed

lemma round_half_even_minus: "round_half_even (- x) = - round_half_even x"
proof (cases "x = of_int \<lfloor>x\<rfloor>")
  case True
  then obtain k where "x = of_int k" ..
  then have "- x = of_int (- k)" by simp
  then show ?thesis unfolding \<open>x = of_int k\<close> by (simp only: round_half_even_of_int)
next
  case False
  then have lt: "of_int \<lfloor>x\<rfloor> < x" by linarith
  have fm: "\<lfloor>- x\<rfloor> = - \<lfloor>x\<rfloor> - 1" using lt by linarith
  have ev: "even (- \<lfloor>x\<rfloor> - 1) \<longleftrightarrow> odd \<lfloor>x\<rfloor>" by simp
  show ?thesis unfolding round_half_even_def Let_def fm ev
    by (auto simp: algebra_simps; linarith)
qed

lemma round_half_even_nonneg: "0 \<le> x \<Longrightarrow> 0 \<le> round_half_even x"
  using round_half_even_mono[of 0 x] round_half_even_of_int[of 0] by simp

subsection \<open>Rounding to a float\<close>

lemma rnd_0 [simp]: "rnd 0 = 0"
  by (simp add: rnd_def)

lemma rnd_minus: "rnd (- x) = - rnd x"
  by (simp add: rnd_def round_half_even_minus)

lemma rnd_err_ulp: "\<bar>rnd x - x\<bar> \<le> 2 powi ulp_exp x / 2"
proof (cases "x = 0")
  case True
  then show ?thesis by simp
next
  case False
  define u where "u = ulp_exp x"
  define s where "s = x / 2 powi u"
  have x: "x = s * 2 powi u" by (simp add: s_def)
  have "rnd x - x = (of_int (round_half_even s) - s) * 2 powi u"
    using False by (simp add: rnd_def s_def u_def algebra_simps)
  then have "\<bar>rnd x - x\<bar> = \<bar>of_int (round_half_even s) - s\<bar> * 2 powi u"
    by (simp add: abs_mult)
  also have "\<dots> \<le> 1/2 * 2 powi u"
    by (intro mult_right_mono round_half_even_err) simp
  finally show ?thesis by (simp add: u_def)
qed

lemma rnd_err: "\<bar>rnd x - x\<bar> \<le> \<bar>x\<bar> / 2 ^ 53 + 2 powi (- 1074) / 2"
proof (cases "x = 0")
  case True
  then show ?thesis by simp
next
  case False
  show ?thesis
  proof (cases "ulp_exp x = - 1074")
    case True
    from rnd_err_ulp[of x] have "\<bar>rnd x - x\<bar> \<le> 2 powi (- 1074) / 2"
      by (simp only: True)
    moreover have "0 \<le> \<bar>x\<bar> / 2 ^ 53" by simp
    ultimately show ?thesis by linarith
  next
    case False
    with ulp_exp_ge[of x] have "- 1074 < ulp_exp x" by simp
    from ulp_exp_lower[OF \<open>x \<noteq> 0\<close> this] have "2 powi (ulp_exp x + 52) \<le> \<bar>x\<bar>" .
    moreover have "(2::real) powi (ulp_exp x + 52) = 2 powi ulp_exp x * 2 ^ 52"
      by (simp add: power_int_add)
    ultimately have "2 powi ulp_exp x / 2 \<le> \<bar>x\<bar> / 2 ^ 53" by simp
    moreover have "0 \<le> (2::real) powi (- 1074) / 2"
      by (intro divide_nonneg_pos less_imp_le two_powi_pos) simp
    ultimately show ?thesis using rnd_err_ulp[of x] by linarith
  qed
qed

lemma rnd_exact:
  assumes "\<bar>m\<bar> < 2 ^ 53" and "- 1074 \<le> e"
  shows "rnd (of_int m * 2 powi e) = of_int m * 2 powi e"
proof (cases "m = 0")
  case True
  then show ?thesis by simp
next
  case False
  define x where "x = real_of_int m * 2 powi e"
  have x0: "x \<noteq> 0" using False by (simp add: x_def)
  define u where "u = ulp_exp x"
  have ax: "\<bar>x\<bar> = real_of_int \<bar>m\<bar> * 2 powi e" by (simp add: x_def abs_mult)
  have "real_of_int \<bar>m\<bar> < real_of_int (2 ^ 53)" using assms(1) by linarith
  then have "real_of_int \<bar>m\<bar> < 2 ^ 53" by simp
  then have "\<bar>x\<bar> < 2 ^ 53 * 2 powi e" unfolding ax by (intro mult_strict_right_mono) simp_all
  also have "\<dots> = 2 powi (e + 53)" by (simp add: power_int_add)
  finally have "\<bar>x\<bar> < 2 powi (e + 53)" .
  with floor_log2_bounds(1)[of "\<bar>x\<bar>"] x0 have "2 powi floor_log2 \<bar>x\<bar> < (2::real) powi (e + 53)"
    by simp
  then have "floor_log2 \<bar>x\<bar> < e + 53" by (rule two_powi_less_imp)
  with assms(2) have ue: "u \<le> e" by (simp add: u_def ulp_exp_def)
  have "x / 2 powi u = real_of_int m * 2 powi (e - u)"
    by (simp add: x_def power_int_diff)
  also have "\<dots> = real_of_int (m * 2 ^ nat (e - u))" using ue by (simp add: power_int_nonneg_exp)
  finally have sc: "x / 2 powi u = real_of_int (m * 2 ^ nat (e - u))" .
  have "rnd x = of_int (round_half_even (x / 2 powi u)) * 2 powi u"
    using x0 by (simp add: rnd_def u_def)
  also have "\<dots> = (x / 2 powi u) * 2 powi u"
    unfolding sc by (simp only: round_half_even_of_int)
  also have "\<dots> = x" by simp
  finally show ?thesis by (simp add: x_def)
qed

lemma rnd_of_int: "\<bar>m\<bar> < 2 ^ 53 \<Longrightarrow> rnd (of_int m) = of_int m"
  using rnd_exact[of m 0] by simp

lemma rnd_of_nat: "n < 2 ^ 53 \<Longrightarrow> rnd (real n) = real n"
  using rnd_of_int[of "int n"] by simp

lemma rnd_two_powi: "- 1074 \<le> k \<Longrightarrow> rnd (2 powi k) = 2 powi k"
  using rnd_exact[of 1 k] by simp

lemma rnd_1 [simp]: "rnd 1 = 1"
  using rnd_of_int[of 1] by simp

lemma two_powi_split: "(2::real) powi u = 2 powi (u - e) * 2 powi e"
  by (simp add: power_int_add[symmetric])

lemma rnd_grid_gen:
  assumes "e \<le> ulp_exp x"
  shows "\<exists>k::int. rnd x = of_int k * 2 powi e"
proof (cases "x = 0")
  case True
  then show ?thesis by (intro exI[of _ 0]) simp
next
  case False
  define u where "u = ulp_exp x"
  have u: "e \<le> u" using assms by (simp add: u_def)
  have "(2::real) powi u = 2 powi (u - e) * 2 powi e" by (rule two_powi_split)
  also have "(2::real) powi (u - e) = real_of_int (2 ^ nat (u - e))"
    using u by (simp add: power_int_nonneg_exp)
  finally have p: "(2::real) powi u = real_of_int (2 ^ nat (u - e)) * 2 powi e" .
  have "rnd x = of_int (round_half_even (x / 2 powi u)) * 2 powi u"
    using False by (simp add: rnd_def u_def)
  also have "\<dots> = of_int (round_half_even (x / 2 powi u)) * (real_of_int (2 ^ nat (u - e)) * 2 powi e)"
    by (simp only: p)
  also have "\<dots> = of_int (round_half_even (x / 2 powi u) * 2 ^ nat (u - e)) * 2 powi e"
    by (simp only: of_int_mult mult.assoc)
  finally show ?thesis by blast
qed

lemma rnd_grid: "\<exists>k::int. rnd x = of_int k * 2 powi (- 1074)"
  by (rule rnd_grid_gen) (rule ulp_exp_ge)

lemma is_double_grid: "is_double x \<Longrightarrow> \<exists>k::int. x = of_int k * 2 powi (- 1074)"
  using rnd_grid[of x] by (simp add: is_double_def)


lemma rnd_nonneg: "0 \<le> x \<Longrightarrow> 0 \<le> rnd x"
  by (simp add: rnd_def round_half_even_nonneg)

lemma rnd_upper_binade:
  assumes "0 < x"
  shows "rnd x \<le> 2 powi (ulp_exp x + 53)"
proof -
  define u where "u = ulp_exp x"
  have "x < 2 powi (u + 53)" using ulp_exp_upper[of x] assms by (simp add: u_def)
  also have "\<dots> = 2 ^ 53 * 2 powi u" by (simp add: power_int_add)
  finally have "x / 2 powi u < 2 ^ 53" by (simp add: field_simps)
  then have "x / 2 powi u < real_of_int (2 ^ 53)" by simp
  then have "\<lfloor>x / 2 powi u\<rfloor> < 2 ^ 53" by (simp only: floor_less_iff)
  with round_half_even_bounds(2)[of "x / 2 powi u"]
  have "round_half_even (x / 2 powi u) \<le> 2 ^ 53" by linarith
  then have "real_of_int (round_half_even (x / 2 powi u)) \<le> real_of_int (2 ^ 53)"
    by (simp only: of_int_le_iff)
  then have "real_of_int (round_half_even (x / 2 powi u)) * 2 powi u \<le> 2 ^ 53 * 2 powi u"
    by (intro mult_right_mono) simp_all
  also have "\<dots> = 2 powi (u + 53)" by (simp add: power_int_add)
  finally have m: "real_of_int (round_half_even (x / 2 powi u)) * 2 powi u \<le> 2 powi (u + 53)" .
  have r: "rnd x = real_of_int (round_half_even (x / 2 powi u)) * 2 powi u"
    using assms by (simp add: rnd_def u_def)
  from m have "rnd x \<le> 2 powi (u + 53)" by (simp only: r)
  then show ?thesis by (simp only: u_def)
qed

lemma rnd_lower_binade:
  assumes "0 < x" and "- 1074 < ulp_exp x"
  shows "2 powi (ulp_exp x + 52) \<le> rnd x"
proof -
  define u where "u = ulp_exp x"
  have "2 powi (u + 52) \<le> x" using ulp_exp_lower[of x] assms by (simp add: u_def)
  moreover have "(2::real) powi (u + 52) = 2 ^ 52 * 2 powi u" by (simp add: power_int_add)
  ultimately have "2 ^ 52 \<le> x / 2 powi u" by (simp add: field_simps)
  then have "real_of_int (2 ^ 52) \<le> x / 2 powi u" by simp
  then have "2 ^ 52 \<le> \<lfloor>x / 2 powi u\<rfloor>" by (simp only: le_floor_iff)
  with round_half_even_bounds(1)[of "x / 2 powi u"]
  have "2 ^ 52 \<le> round_half_even (x / 2 powi u)" by linarith
  then have "real_of_int (2 ^ 52) \<le> real_of_int (round_half_even (x / 2 powi u))"
    by (simp only: of_int_le_iff)
  then have m: "2 ^ 52 * 2 powi u \<le> real_of_int (round_half_even (x / 2 powi u)) * 2 powi u"
    by (intro mult_right_mono) simp_all
  have r: "rnd x = real_of_int (round_half_even (x / 2 powi u)) * 2 powi u"
    using assms by (simp add: rnd_def u_def)
  have "(2::real) powi (u + 52) = 2 ^ 52 * 2 powi u" by (simp add: power_int_add)
  also note m
  finally have "2 powi (u + 52) \<le> rnd x" by (simp only: r)
  then show ?thesis by (simp only: u_def)
qed

lemma rnd_mono_pos:
  assumes "0 < x" and "x \<le> y"
  shows "rnd x \<le> rnd y"
proof -
  have y: "0 < y" using assms by simp
  have le: "ulp_exp x \<le> ulp_exp y" using assms by (intro ulp_exp_mono) simp_all
  show ?thesis
  proof (cases "ulp_exp x = ulp_exp y")
    case True
    have "x / 2 powi ulp_exp y \<le> y / 2 powi ulp_exp y"
      using assms(2) by (intro divide_right_mono) simp_all
    then have "round_half_even (x / 2 powi ulp_exp y) \<le> round_half_even (y / 2 powi ulp_exp y)"
      by (rule round_half_even_mono)
    then have "real_of_int (round_half_even (x / 2 powi ulp_exp y)) * 2 powi ulp_exp y
        \<le> real_of_int (round_half_even (y / 2 powi ulp_exp y)) * 2 powi ulp_exp y"
      by (intro mult_right_mono) simp_all
    then show ?thesis using assms(1) y True by (simp add: rnd_def)
  next
    case False
    with le have lt: "ulp_exp x + 53 \<le> ulp_exp y + 52" by simp
    from False le ulp_exp_ge[of x] have "- 1074 < ulp_exp y" by simp
    from rnd_lower_binade[OF y this] have "2 powi (ulp_exp y + 52) \<le> rnd y" .
    moreover have "rnd x \<le> 2 powi (ulp_exp x + 53)" using assms(1) by (rule rnd_upper_binade)
    moreover have "(2::real) powi (ulp_exp x + 53) \<le> 2 powi (ulp_exp y + 52)"
      using lt by (rule two_powi_mono)
    ultimately show ?thesis by linarith
  qed
qed

lemma rnd_mono:
  assumes "x \<le> y"
  shows "rnd x \<le> rnd y"
proof -
  consider "0 < x" | "x \<le> 0" "0 \<le> y" | "y < 0" by linarith
  then show ?thesis
  proof cases
    case 1
    then show ?thesis using assms by (rule rnd_mono_pos)
  next
    case 2
    have "rnd x \<le> 0" using rnd_nonneg[of "- x"] 2(1) by (simp add: rnd_minus)
    moreover have "0 \<le> rnd y" using 2(2) by (rule rnd_nonneg)
    ultimately show ?thesis by linarith
  next
    case 3
    have "rnd (- y) \<le> rnd (- x)" using 3 assms by (intro rnd_mono_pos) simp_all
    then show ?thesis by (simp add: rnd_minus)
  qed
qed

lemma rnd_le_double: "x \<le> b \<Longrightarrow> is_double b \<Longrightarrow> rnd x \<le> b"
  using rnd_mono[of x b] by (simp add: is_double_def)

lemma rnd_ge_double: "a \<le> x \<Longrightarrow> is_double a \<Longrightarrow> a \<le> rnd x"
  using rnd_mono[of a x] by (simp add: is_double_def)

lemma is_double_0 [simp]: "is_double 0"
  by (simp add: is_double_def)

lemma is_double_minus: "is_double (- x) \<longleftrightarrow> is_double x"
  by (auto simp: is_double_def rnd_minus)

lemma filter_length_mono:
  "(\<And>x. x \<in> set xs \<Longrightarrow> P x \<Longrightarrow> Q x) \<Longrightarrow> length (filter P xs) \<le> length (filter Q xs)"
  by (induction xs) auto

lemma numeric_values_Inr: "numeric_values cs = Inr xs \<Longrightarrow> cs = map Num xs"
  by (induction cs arbitrary: xs rule: numeric_values.induct) (auto split: sum.splits)

lemma numeric_values_map_Num: "numeric_values (map Num xs) = Inr xs"
  by (induction xs) auto

lemma column_outliers_empty:
  "dropna vals = [] \<Longrightarrow> column_outliers vals f = Inr NoValues"
  by (simp add: column_outliers_def)

lemma outlier_step_Inr:
  "outlier_step df f col acc = Inr s \<Longrightarrow>
     \<exists>k e. getitem df col = Inr k \<and> column_outliers (col_values k) f = Inr e \<and>
           s = AList.update col e acc"
  by (auto simp: outlier_step_def split: sum.splits)

lemma outlier_loop_other:
  "outlier_loop df f cols acc = Inr s \<Longrightarrow> c \<notin> set cols \<Longrightarrow> map_of s c = map_of acc c"
proof (induction cols arbitrary: acc)
  case Nil
  then show ?case by simp
next
  case (Cons col cols)
  from Cons.prems obtain acc' where st: "outlier_step df f col acc = Inr acc'"
    and lp: "outlier_loop df f cols acc' = Inr s"
    by (auto split: sum.splits)
  from Cons.prems have "c \<noteq> col" "c \<notin> set cols" by auto
  with Cons.IH[OF lp] have "map_of s c = map_of acc' c" by simp
  moreover from outlier_step_Inr[OF st] \<open>c \<noteq> col\<close> have "map_of acc' c = map_of acc c"
    by (auto simp: update_conv')
  ultimately show ?case by simp
qed

lemma outlier_loop_member:
  "outlier_loop df f cols acc = Inr s \<Longrightarrow> c \<in> set cols \<Longrightarrow>
     \<exists>k e. getitem df c = Inr k \<and> column_outliers (col_values k) f = Inr e \<and> map_of s c = Some e"
proof (induction cols arbitrary: acc)
  case Nil
  then show ?case by simp
next
  case (Cons col cols)
  from Cons.prems obtain acc' where st: "outlier_step df f col acc = Inr acc'"
    and lp: "outlier_loop df f cols acc' = Inr s"
    by (auto split: sum.splits)
  show ?case
  proof (cases "c \<in> set cols")
    case True
    from Cons.IH[OF lp True] show ?thesis .
  next
    case False
    with Cons.prems have [simp]: "c = col" by simp
    from outlier_step_Inr[OF st] obtain k e where
      ke: "getitem df col = Inr k" "column_outliers (col_values k) f = Inr e"
          "acc' = AList.update col e acc" by blast
    from outlier_loop_other[OF lp False] ke(3) have "map_of s c = Some e"
      by (simp add: update_conv')
    with ke show ?thesis by auto
  qed
qed

lemma outlier_loop_keys:
  "outlier_loop df f cols [] = Inr s \<Longrightarrow> map_of s c = Some e \<Longrightarrow> c \<in> set cols"
  using outlier_loop_other[of df f cols "[]" s c] by (cases "c \<in> set cols") auto

lemma outlier_loop_absent:
  "c \<in> set cols \<Longrightarrow> getitem df c = Inl e0 \<Longrightarrow> \<exists>e. outlier_loop df f cols acc = Inl e"
proof (induction cols arbitrary: acc)
  case Nil
  then show ?case by simp
next
  case (Cons col cols)
  show ?case
  proof (cases "outlier_step df f col acc")
    case (Inl e)
    then show ?thesis by simp
  next
    case (Inr acc')
    from outlier_step_Inr[OF Inr] Cons.prems(2) have "c \<noteq> col" by auto
    with Cons.prems have "c \<in> set cols" by simp
    from Cons.IH[OF this Cons.prems(2)] Inr show ?thesis by simp
  qed
qed

lemma getitem_absent: "c \<notin> set (column_names df) \<Longrightarrow> getitem df c = Inl (KeyError [c])"
  by (auto simp: getitem_def column_names_def find_None_iff split: option.splits)

lemma getitem_Inr: "getitem df c = Inr k \<Longrightarrow> k \<in> set (df_columns df) \<and> col_name k = c"
  by (auto simp: getitem_def find_Some_iff split: option.splits)

lemma getitem_distinct:
  "distinct (column_names df) \<Longrightarrow> k \<in> set (df_columns df) \<Longrightarrow> getitem df (col_name k) = Inr k"
proof -
  assume d: "distinct (column_names df)" and k: "k \<in> set (df_columns df)"
  have "\<And>ks. distinct (map col_name ks) \<Longrightarrow> k \<in> set ks \<Longrightarrow>
          find (\<lambda>j. col_name j = col_name k) ks = Some k"
  proof -
    fix ks show "distinct (map col_name ks) \<Longrightarrow> k \<in> set ks \<Longrightarrow>
          find (\<lambda>j. col_name j = col_name k) ks = Some k"
      by (induction ks) (auto simp: rev_image_eqI)
  qed
  with d k show ?thesis by (simp add: getitem_def column_names_def)
qed

lemma numeric_cells_values:
  "list_all is_numeric_cell vals \<Longrightarrow> \<exists>xs. numeric_values (dropna vals) = Inr xs"
proof (induction vals)
  case Nil
  then show ?case by (simp add: dropna_def)
next
  case (Cons v vs)
  then obtain xs where "numeric_values (dropna vs) = Inr xs" by auto
  with Cons.prems show ?case by (cases v) (auto simp: dropna_def)
qed

lemma column_outliers_numeric:
  "list_all is_numeric_cell vals \<Longrightarrow> \<exists>e. column_outliers vals f = Inr e"
  using numeric_cells_values[of vals]
  by (auto simp: column_outliers_def iqr_bounds_def Let_def)

lemma outlier_loop_total:
  "(\<And>c. c \<in> set cols \<Longrightarrow> \<exists>k e. getitem df c = Inr k \<and> column_outliers (col_values k) f = Inr e)
     \<Longrightarrow> \<exists>s. outlier_loop df f cols acc = Inr s"
proof (induction cols arbitrary: acc)
  case Nil
  then show ?case by simp
next
  case (Cons col cols)
  from Cons.prems[of col] obtain k e where
    "getitem df col = Inr k" "column_outliers (col_values k) f = Inr e" by auto
  then have "outlier_step df f col acc = Inr (AList.update col e acc)"
    by (simp add: outlier_step_def)
  moreover have "\<exists>s. outlier_loop df f cols (AList.update col e acc) = Inr s"
    by (rule Cons.IH) (use Cons.prems in auto)
  ultimately show ?case by simp
qed

lemma outlier_summary_default_total:
  assumes "wf_df df"
  shows "\<exists>s. outlier_summary df None f = Inr s"
proof -
  have *: "\<exists>k e. getitem df c = Inr k \<and> column_outliers (col_values k) f = Inr e"
    if "c \<in> set (map col_name (filter (\<lambda>k. is_number (col_dtype k)) (df_columns df)))" for c
  proof -
    from that obtain k where k: "k \<in> set (df_columns df)" "is_number (col_dtype k)" "c = col_name k"
      by auto
    from assms k have "getitem df c = Inr k" by (simp add: wf_df_def getitem_distinct)
    moreover from assms k have "list_all is_numeric_cell (col_values k)"
      by (auto simp: wf_df_def list_all_iff)
    ultimately show ?thesis using column_outliers_numeric by blast
  qed
  have "\<exists>s. outlier_loop df f
          (map col_name (filter (\<lambda>k. is_number (col_dtype k)) (df_columns df))) [] = Inr s"
    by (rule outlier_loop_total) (rule *)
  then show ?thesis by (simp add: outlier_summary_def)
qed

text \<open>
  Claim C10.  When the explicit list \<open>numeric_cols\<close> names a column that the frame
  does not have, the outlier detector returns no summary at all: the whole call ends in
  an error.
\<close>

theorem outlier_summary_unknown_column:
  assumes "c \<in> set cs" and "c \<notin> set (column_names df)"
  shows "\<exists>e. outlier_summary df (Some cs) factor = Inl e"
  using outlier_loop_absent[OF assms(1) getitem_absent[OF assms(2)]]
  by (simp add: outlier_summary_def)


theorem outlier_summary_unknown_column_witness:
  "''zzz'' \<in> set [''x'', ''zzz''] \<and> ''zzz'' \<notin> set (column_names df_scenario) \<and>
   outlier_summary df_scenario (Some [''x'', ''zzz'']) (Fin (3/2)) = Inl (KeyError [''zzz''])"
proof -
  have a: "''zzz'' \<in> set [''x'', ''zzz'']" by simp
  have b: "''zzz'' \<notin> set (column_names df_scenario)"
    by (simp add: df_scenario_def column_names_def)
  have c: "outlier_summary df_scenario (Some [''x'', ''zzz'']) (Fin (3/2)) = Inl (KeyError [''zzz''])"
    by (simp add: df_scenario_def outlier_summary_def outlier_step_def getitem_def
        column_outliers_def dropna_def iqr_bounds_def quantile_def Let_def)
  from outlier_summary_unknown_column[OF a b, of "Fin (3/2)"] a b c show ?thesis by simp
qed

lemma fl_Fin: "- (2 ^ 1024) < rnd x \<Longrightarrow> rnd x < 2 ^ 1024 \<Longrightarrow> fl x = Fin (rnd x)"
  by (simp add: fl_def Let_def)

lemma rnd_unit_interval:
  assumes "0 \<le> x" and "x \<le> 1"
  shows "0 \<le> rnd x" and "rnd x \<le> 1"
  using rnd_mono[OF assms(1)] rnd_mono[OF assms(2)] by simp_all

lemma series_div_range:
  assumes "0 < n" and "k \<le> n"
  shows "\<exists>r. series_div k n = Fin r \<and> 0 \<le> r \<and> r \<le> 1"
proof -
  have a: "0 \<le> rnd (real k)" by (rule rnd_nonneg) simp
  have "rnd 1 \<le> rnd (real n)" using assms(1) by (intro rnd_mono) simp
  then have b: "1 \<le> rnd (real n)" by simp
  have ab: "rnd (real k) \<le> rnd (real n)" using assms(2) by (intro rnd_mono) simp
  have q: "0 \<le> rnd (real k) / rnd (real n)" "rnd (real k) / rnd (real n) \<le> 1"
    using a b ab by simp_all
  from rnd_unit_interval[OF q] have r: "0 \<le> rnd (rnd (real k) / rnd (real n))"
    "rnd (rnd (real k) / rnd (real n)) \<le> 1" .
  have "fl (rnd (real k) / rnd (real n)) = Fin (rnd (rnd (real k) / rnd (real n)))"
  proof (rule fl_Fin)
    have big: "(1::real) < 2 ^ 1024" by (rule one_less_power) simp_all
    show "- (2 ^ 1024) < rnd (rnd (real k) / rnd (real n))" using r(1) big by linarith
    show "rnd (rnd (real k) / rnd (real n)) < 2 ^ 1024" using r(2) big by linarith
  qed
  with r assms(1) show ?thesis by (simp add: series_div_def)
qed

lemma isna_sum_le: "isna_sum xs \<le> length xs"
  by (simp add: isna_sum_def)

lemma missing_pct_range:
  assumes "wf_df df" and "0 < index_len df" and "(c, e) \<in> set (per_column (missing_summary df))"
  shows "\<exists>r. missing_pct e = Fin r \<and> 0 \<le> r \<and> r \<le> 1"
proof -
  from assms(3) obtain k where k: "k \<in> set (df_columns df)"
    and e: "e = \<lparr>missing_count = isna_sum (col_values k),
                 missing_pct = series_div (isna_sum (col_values k)) (index_len df)\<rparr>"
    by (auto simp: missing_summary_def Let_def)
  from assms(1) k have "length (col_values k) = index_len df"
    by (auto simp: wf_df_def list_all_iff)
  then have "isna_sum (col_values k) \<le> index_len df" using isna_sum_le[of "col_values k"] by simp
  from series_div_range[OF assms(2) this] e show ?thesis by simp
qed

lemma missing_pct_no_rows:
  assumes "wf_df df" and "index_len df = 0" and "(c, e) \<in> set (per_column (missing_summary df))"
  shows "missing_pct e = NaN"
proof -
  from assms(3) obtain k where k: "k \<in> set (df_columns df)"
    and e: "e = \<lparr>missing_count = isna_sum (col_values k),
                 missing_pct = series_div (isna_sum (col_values k)) (index_len df)\<rparr>"
    by (auto simp: missing_summary_def Let_def)
  from assms(1,2) k have "col_values k = []"
    by (auto simp: wf_df_def list_all_iff)
  with e assms(2) show ?thesis by (simp add: series_div_def isna_sum_def)
qed

text \<open>
  Claim C1.  On a frame with no row the missing-value analyzer should report the
  percentage 0.0 for every column.  The code divides the counts by \<open>n = 0\<close> without a
  guard: on the frame with one column and no row the reported percentage is NaN, not 0.0.
\<close>

theorem missing_summary_no_rows_nan:
  "missing_summary df_no_rows =
     \<lparr>rows = 0, columns = 1,
      per_column = [(''a'', \<lparr>missing_count = 0, missing_pct = NaN\<rparr>)]\<rparr> \<and>
   NaN \<noteq> Fin 0"
  by (simp add: df_no_rows_def missing_summary_def isna_sum_def series_div_def)

text \<open>
  Claim C3, as stated: when a sub-check raises, the report still holds the results of the
  others and an error marker.  On the frame with a list cell the duplicate detector raises
  a TypeError and \<open>validate\<close> returns no report: the error leaves the call.
\<close>

theorem validate_isolation_counterexample:
  "duplicates df_with_list None = Inl TypeError \<and> validate df_with_list None = Inl TypeError"
  by (simp add: df_with_list_def validate_def duplicates_def duplicated_def df_empty_def
      column_names_def column_cells_def Let_def)

text \<open>
  Claim C3, amended.  When the duplicate detector or the outlier detector raises inside
  \<open>validate\<close>, the call ends in that error (the duplicate detector's one when both
  raise, since it runs first) and no report is returned.
\<close>

theorem validate_propagates_error:
  assumes "duplicates df None = Inl e \<or> outlier_summary df None (Fin (3/2)) = Inl e"
  shows "validate df es = Inl (case duplicates df None of Inl e1 \<Rightarrow> e1 | Inr d \<Rightarrow> e)"
  using assms by (auto simp: validate_def Let_def split: sum.splits)

theorem validate_propagates_error_witness:
  "(duplicates df_with_list None = Inl TypeError \<or>
      outlier_summary df_with_list None (Fin (3/2)) = Inl TypeError) \<and>
   validate df_with_list None = Inl TypeError"
proof -
  have d: "duplicates df_with_list None = Inl TypeError"
    by (simp add: df_with_list_def duplicates_def duplicated_def df_empty_def
        column_names_def column_cells_def Let_def)
  then have h: "duplicates df_with_list None = Inl TypeError \<or>
      outlier_summary df_with_list None (Fin (3/2)) = Inl TypeError" by simp
  from validate_propagates_error[OF h, of None] d show ?thesis by simp
qed

lemma validate_report:
  "validate df es = Inr r \<Longrightarrow>
     missing r = missing_summary df \<and> duplicates df None = Inr (duplicates_r r) \<and>
     dtypes r = dtype_issues df es \<and> cardinality r = cardinality_report df 5 \<and>
     outlier_summary df None (Fin (3/2)) = Inr (outliers r)"
  by (auto simp: validate_def Let_def split: sum.splits)




lemma fold_update_lookup:
  "map_of (fold (\<lambda>k acc. AList.update k (g k) acc) ks acc0) c =
     (if c \<in> set ks then Some (g c) else map_of acc0 c)"
  by (induction ks arbitrary: acc0) (auto simp: update_conv')

lemma cardinality_step_update:
  "cardinality_step df top_n =
     (\<lambda>col acc. AList.update col
        (case (case getitem df col of Inl e \<Rightarrow> Inl e | Inr k \<Rightarrow> value_counts (col_values k)) of
           Inr vc \<Rightarrow> Cardinality (length vc) (head top_n vc)
         | Inl e \<Rightarrow> CardinalityError ''could not compute value_counts'') acc)"
  by (auto simp: fun_eq_iff cardinality_step_def split: sum.splits)

lemma cardinality_report_keys:
  "map_of (cardinality_report df top_n) c = None \<longleftrightarrow> c \<notin> set (column_names df)"
  by (simp add: cardinality_report_def cardinality_step_update fold_update_lookup)

text \<open>
  Claim C6, as stated: a column whose frequency computation fails gets the entry
  \<open>{error: "unsupported column kind"}\<close>.  The entry the code records carries another
  text, \<open>"could not compute value_counts"\<close>.
\<close>

theorem cardinality_error_text_counterexample:
  "map_of (cardinality_report df_with_list 5) ''l'' =
     Some (CardinalityError ''could not compute value_counts'') \<and>
   CardinalityError ''could not compute value_counts'' \<noteq> CardinalityError ''unsupported column kind''"
  by (simp add: df_with_list_def cardinality_report_def cardinality_step_def column_names_def
      getitem_def value_counts_def)

text \<open>
  Claim C6, amended.  For every frame with unique column names and every \<open>top_n\<close>, the
  cardinality analyzer returns a report with one entry per column: the entry
  \<open>{error: "could not compute value_counts"}\<close> for a column whose frequency computation
  fails, and the normal entry (number of distinct values, the \<open>top_n\<close> first counts) for
  every other column.  A failure in one column changes no other entry.
\<close>

theorem cardinality_report_per_column:
  assumes "distinct (column_names df)" and "k \<in> set (df_columns df)"
  shows "map_of (cardinality_report df top_n) (col_name k) =
           Some (case value_counts (col_values k) of
                   Inl e \<Rightarrow> CardinalityError ''could not compute value_counts''
                 | Inr vc \<Rightarrow> Cardinality (length vc) (head top_n vc))"
proof -
  from assms have g: "getitem df (col_name k) = Inr k" by (rule getitem_distinct)
  from assms(2) have "col_name k \<in> set (column_names df)" by (simp add: column_names_def)
  with g show ?thesis
    by (simp add: cardinality_report_def cardinality_step_update fold_update_lookup
        split: sum.splits)
qed

theorem cardinality_report_per_column_witness:
  "distinct (column_names df_with_list) \<and>
   cardinality_report df_with_list 5 =
     [(''a'', Cardinality 1 [(Num (Fin 1), 2)]),
      (''l'', CardinalityError ''could not compute value_counts'')]"
proof -
  have d: "distinct (column_names df_with_list)"
    by (simp add: df_with_list_def column_names_def)
  have k: "\<lparr>col_name = ''a'', col_dtype = Int64, col_values = [Num (Fin 1), Num (Fin 1)]\<rparr>
             \<in> set (df_columns df_with_list)"
    by (simp add: df_with_list_def)
  have r: "cardinality_report df_with_list 5 =
     [(''a'', Cardinality 1 [(Num (Fin 1), 2)]),
      (''l'', CardinalityError ''could not compute value_counts'')]"
    by (simp add: df_with_list_def cardinality_report_def cardinality_step_def column_names_def
        getitem_def value_counts_def first_seen_def head_def)
  from cardinality_report_per_column[OF d k, of 5] d r show ?thesis by simp
qed

lemma fold_update_find:
  "distinct (map h xs) \<Longrightarrow>
   map_of (fold (\<lambda>x acc. AList.update (h x) (g x) acc) xs acc0) c =
     (case find (\<lambda>x. h x = c) xs of None \<Rightarrow> map_of acc0 c | Some x \<Rightarrow> Some (g x))"
proof (induction xs arbitrary: acc0)
  case Nil
  then show ?case by simp
next
  case (Cons x xs)
  from Cons.prems have d: "distinct (map h xs)" and nin: "h x \<notin> h ` set xs" by auto
  show ?case
  proof (cases "h x = c")
    case True
    have "find (\<lambda>y. h y = c) xs = None"
    proof (rule ccontr)
      assume "find (\<lambda>y. h y = c) xs \<noteq> None"
      then obtain y where "y \<in> set xs" "h y = c" by (auto simp: find_None_iff)
      with True have "h x \<in> h ` set xs" by (metis image_eqI)
      with nin show False by simp
    qed
    with Cons.IH[OF d, of "AList.update (h x) (g x) acc0"] True show ?thesis
      by (simp add: update_conv')
  next
    case False
    with Cons.IH[OF d, of "AList.update (h x) (g x) acc0"] show ?thesis
      by (simp add: update_conv' split: option.splits)
  qed
qed

lemma dtypes_dict_lookup:
  "distinct (column_names df) \<Longrightarrow>
   map_of (dtypes_dict df) c =
     (case find (\<lambda>k. col_name k = c) (df_columns df) of
        None \<Rightarrow> None
      | Some k \<Rightarrow> Some (dtype_str (col_dtype k)))"
  unfolding dtypes_dict_def column_names_def
  by (subst fold_update_find) (simp_all split: option.splits)

lemma dtype_step_lookup:
  "map_of (dtype_step A (c', ex) acc) c =
     (if c = c' \<and> map_of A c' \<noteq> Some ex
      then Some \<lparr>expected = ex, actual = map_of A c'\<rparr> else map_of acc c)"
  by (simp add: dtype_step_def Let_def update_conv')

lemma fold_dtype_step_lookup:
  "distinct (map fst items) \<Longrightarrow>
   map_of (fold (dtype_step A) items acc) c =
     (case map_of items c of
        None \<Rightarrow> map_of acc c
      | Some ex \<Rightarrow>
          if map_of A c = Some ex then map_of acc c
          else Some \<lparr>expected = ex, actual = map_of A c\<rparr>)"
proof (induction items arbitrary: acc)
  case Nil
  then show ?case by simp
next
  case (Cons item items)
  obtain c' ex where item: "item = (c', ex)" by (cases item)
  from Cons.prems item have d: "distinct (map fst items)" and nin: "c' \<notin> fst ` set items"
    by auto
  from nin have none: "map_of items c' = None" by (simp add: map_of_eq_None_iff)
  show ?case
  proof (cases "c = c'")
    case True
    with Cons.IH[OF d, of "dtype_step A (c', ex) acc"] none item show ?thesis
      by (simp add: dtype_step_lookup)
  next
    case False
    with Cons.IH[OF d, of "dtype_step A (c', ex) acc"] item show ?thesis
      by (simp add: dtype_step_lookup split: option.splits)
  qed
qed

text \<open>
  Claim C2, as stated: a column named in the expected schema and absent from the frame
  does not appear among the mismatches.  The code looks the actual dtype up with
  \<^verbatim>\<open>actual.get(c)\<close>, which is \<^verbatim>\<open>None\<close> for an absent column and differs from every expected
  label: the column is reported, with the actual dtype \<^verbatim>\<open>None\<close>.
\<close>

theorem dtype_mismatch_absent_column_counterexample:
  "''b'' \<notin> set (column_names df_no_rows) \<and>
   dtype_mismatches (dtype_issues df_no_rows (Some [(''b'', ''int64'')])) =
     [(''b'', \<lparr>expected = ''int64'', actual = None\<rparr>)]"
  by (simp add: df_no_rows_def column_names_def dtype_issues_def dtypes_dict_def dtype_step_def)

text \<open>
  Claim C2, amended.  The mismatches are empty when the expected schema is omitted or
  empty.  Otherwise, on a frame with unique column names, a name has an entry among the
  mismatches exactly when the expected schema names it and either the frame has no such
  column, and the entry holds the expected label and the actual dtype \<^verbatim>\<open>None\<close>, or the
  dtype of the frame's column of that name differs from the expected label, and the entry
  holds the expected label and that dtype.
\<close>

theorem dtype_mismatches_exact:
  assumes "distinct (map fst exp_items)" and "distinct (column_names df)"
  shows "dtype_mismatches (dtype_issues df None) = [] \<and>
         dtype_mismatches (dtype_issues df (Some [])) = [] \<and>
         map_of (dtype_mismatches (dtype_issues df (Some exp_items))) c =
           (case map_of exp_items c of
              None \<Rightarrow> None
            | Some ex \<Rightarrow>
                (case find (\<lambda>k. col_name k = c) (df_columns df) of
                   None \<Rightarrow> Some \<lparr>expected = ex, actual = None\<rparr>
                 | Some k \<Rightarrow>
                     if dtype_str (col_dtype k) = ex then None
                     else Some \<lparr>expected = ex, actual = Some (dtype_str (col_dtype k))\<rparr>))"
proof -
  have "map_of (dtype_mismatches (dtype_issues df (Some exp_items))) c =
           (case map_of exp_items c of
              None \<Rightarrow> None
            | Some ex \<Rightarrow>
                if map_of (dtypes_dict df) c = Some ex then None
                else Some \<lparr>expected = ex, actual = map_of (dtypes_dict df) c\<rparr>)"
  proof (cases "exp_items = []")
    case True
    then show ?thesis by (simp add: dtype_issues_def Let_def)
  next
    case False
    then show ?thesis
      using fold_dtype_step_lookup[OF assms(1), of "dtypes_dict df" "[]" c]
      by (simp add: dtype_issues_def Let_def split: option.splits)
  qed
  then show ?thesis
    unfolding dtypes_dict_lookup[OF assms(2)]
    by (simp add: dtype_issues_def Let_def split: option.splits)
qed

theorem dtype_mismatches_exact_witness:
  "distinct (map fst [(''a'', ''float64''), (''l'', ''object''), (''b'', ''int64'')]) \<and>
   distinct (column_names df_with_list) \<and>
   dtype_issues df_with_list (Some [(''a'', ''float64''), (''l'', ''object''), (''b'', ''int64'')]) =
     \<lparr>actual_dtypes = [(''a'', ''int64''), (''l'', ''object'')],
      dtype_mismatches =
        [(''a'', \<lparr>expected = ''float64'', actual = Some ''int64''\<rparr>),
         (''b'', \<lparr>expected = ''int64'', actual = None\<rparr>)]\<rparr>"
proof -
  have d: "distinct (map fst [(''a'', ''float64''), (''l'', ''object''), (''b'', ''int64'')])"
    by simp
  have n: "distinct (column_names df_with_list)"
    by (simp add: df_with_list_def column_names_def)
  have r: "dtype_issues df_with_list
             (Some [(''a'', ''float64''), (''l'', ''object''), (''b'', ''int64'')]) =
     \<lparr>actual_dtypes = [(''a'', ''int64''), (''l'', ''object'')],
      dtype_mismatches =
        [(''a'', \<lparr>expected = ''float64'', actual = Some ''int64''\<rparr>),
         (''b'', \<lparr>expected = ''int64'', actual = None\<rparr>)]\<rparr>"
    by (simp add: df_with_list_def dtype_issues_def dtypes_dict_def dtype_step_def Let_def)
  from dtype_mismatches_exact[OF d n, of "''a''"] d n r show ?thesis by simp
qed

lemma round_half_even_0 [simp]: "round_half_even 0 = 0"
  using round_half_even_of_int[of 0] by simp

lemma py_round_zero: "py_round 0 ndigits = 0"
  by (simp add: py_round_def)

lemma tiny_bound: "(2::real) powi (- 1074) / 2 \<le> 1 / 2 ^ 53"
proof -
  have "(2::real) powi (- 1074) \<le> 2 powi (- 53)" by (rule two_powi_mono) simp
  also have "(2::real) powi (- 53) = 1 / 2 ^ 53" by (simp add: power_int_def field_simps)
  finally have "(2::real) powi (- 1074) \<le> 1 / 2 ^ 53" .
  moreover have "0 < (2::real) powi (- 1074)" by (rule two_powi_pos)
  ultimately show ?thesis by linarith
qed

lemma rnd_err_unit:
  assumes "0 \<le> x" and "x \<le> 1"
  shows "\<bar>rnd x - x\<bar> \<le> 1 / 2 ^ 52"
proof -
  have "\<bar>x\<bar> / 2 ^ 53 \<le> 1 / 2 ^ 53" using assms by (intro divide_right_mono) simp_all
  with rnd_err[of x] tiny_bound show ?thesis by simp
qed

lemma py_round_4_err:
  assumes "0 \<le> x" and "x \<le> 1"
  shows "\<bar>py_round x 4 - x\<bar> \<le> 1 / 20000 + 1 / 2 ^ 52"
proof -
  define d where "d = real_of_int (round_half_even (x * 10 ^ 4)) / 10 ^ 4"
  have e: "\<bar>real_of_int (round_half_even (x * 10 ^ 4)) - x * 10 ^ 4\<bar> \<le> 1/2"
    by (rule round_half_even_err)
  then have dx: "\<bar>d - x\<bar> \<le> 1 / 20000" unfolding d_def by (simp add: abs_le_iff field_simps)
  have "0 \<le> round_half_even (x * 10 ^ 4)" using assms(1) by (intro round_half_even_nonneg) simp
  then have d0: "0 \<le> d" by (simp add: d_def)
  have "round_half_even (x * 10 ^ 4) \<le> round_half_even (real_of_int 10000)"
    using assms(2) by (intro round_half_even_mono) simp
  then have "round_half_even (x * 10 ^ 4) \<le> 10000" by (simp only: round_half_even_of_int)
  then have "real_of_int (round_half_even (x * 10 ^ 4)) \<le> 10000" by linarith
  then have d1: "d \<le> 1" by (simp add: d_def)
  have "\<bar>rnd d - d\<bar> \<le> 1 / 2 ^ 52" using d0 d1 by (rule rnd_err_unit)
  moreover have "py_round x 4 = rnd d" by (simp add: py_round_def d_def)
  ultimately show ?thesis using dx by linarith
qed

lemma infer_loop_fold:
  assumes "\<And>c acc. c \<in> set cols \<Longrightarrow> infer_step df k c acc = Inr (AList.update c (E c) acc)"
  shows "infer_loop df k cols acc = Inr (fold (\<lambda>c a. AList.update c (E c) a) cols acc)"
  using assms
proof (induction cols arbitrary: acc)
  case Nil
  then show ?case by simp
next
  case (Cons c cols)
  have "infer_step df k c acc = Inr (AList.update c (E c) acc)" by (rule Cons.prems) simp
  moreover have "infer_loop df k cols (AList.update c (E c) acc) =
      Inr (fold (\<lambda>c a. AList.update c (E c) a) cols (AList.update c (E c) acc))"
    by (rule Cons.IH) (rule Cons.prems, simp)
  ultimately show ?case by simp
qed

text \<open>
  Claim C9, as stated: the reported null ratio is exactly \<open>null_count / N\<close>.  The code
  rounds the ratio to four decimals before it reports it: with one null in three rows the
  report holds the float nearest to 0.3333, which is not 1/3.
\<close>

theorem infer_schema_null_pct_counterexample:
  "infer_schema df_one_null 5 =
     Inr [(''a'', \<lparr>dtype_name = ''float64'', null_count = 1, null_pct = rnd (3333 / 10000),
                  unique_count = 2, sample_values = [Num (Fin 1), Num (Fin 2)]\<rparr>)] \<and>
   index_len df_one_null = 3 \<and> rnd (3333 / 10000) \<noteq> 1 / 3"
  by code_simp

text \<open>
  Claim C9, amended.  On a frame with unique column names, one cell per row in every
  column and only cells that can be hashed,
  \<open>infer_schema\<close> returns a schema with an entry for every column, also when the frame
  has no row.  The entry's null count is the number of missing cells of the column.  Its
  null ratio is 0.0 when \<open>N = 0\<close>; otherwise it is the float quotient of the null count
  by \<open>N\<close>, rounded to four decimals (a tie of the float's exact value to the even digit)
  and taken as the nearest float, so that for fewer than \<open>2 ^ 53\<close> rows it differs from
  \<open>null_count / N\<close> by at most 0.00005 and a rounding error below \<open>2 ^ (- 50)\<close>.
\<close>

theorem infer_schema_null_pct:
  assumes "distinct (column_names df)"
    and "list_all (\<lambda>c. length (col_values c) = index_len df \<and> list_all hashable (col_values c))
           (df_columns df)"
    and "col \<in> set (df_columns df)"
  shows "\<exists>schema e.
           infer_schema df k = Inr schema \<and> map_of schema (col_name col) = Some e \<and>
           null_count e = isna_sum (col_values col) \<and>
           null_pct e =
             (if index_len df = 0 then 0
              else rnd (real_of_int (round_half_even
                     (rnd (rnd (real (null_count e)) / rnd (real (index_len df))) * 10 ^ 4))
                   / 10 ^ 4)) \<and>
           (index_len df < 2 ^ 53 \<longrightarrow>
              \<bar>null_pct e -
                 (if index_len df = 0 then 0
                  else real (null_count e) / real (index_len df))\<bar>
                \<le> 1 / 20000 + 1 / 2 ^ 50)"
proof -
  define n where "n = index_len df"
  define f where "f c = (case getitem df c of Inr s \<Rightarrow> s | Inl e \<Rightarrow> col)" for c
  define frac where
    "frac c = (if n \<noteq> 0 then rnd (rnd (real (isna_sum (col_values (f c)))) / rnd (real n)) else 0)"
    for c
  define E where
    "E c = \<lparr>dtype_name = dtype_str (col_dtype (f c)),
            null_count = isna_sum (col_values (f c)),
            null_pct = py_round (frac c) 4,
            unique_count = length (first_seen (dropna (col_values (f c)))),
            sample_values = head k (first_seen (dropna (col_values (f c))))\<rparr>" for c
  have dist: "distinct (column_names df)" using assms(1) .
  have step: "infer_step df k c acc = Inr (AList.update c (E c) acc)"
    if "c \<in> set (column_names df)" for c acc
  proof -
    from that obtain s where s: "s \<in> set (df_columns df)" "c = col_name s"
      by (auto simp: column_names_def)
    then have g: "getitem df c = Inr s" using dist by (simp add: getitem_distinct)
    then have fs: "f c = s" by (simp add: f_def)
    have "list_all hashable (col_values s)" using assms(2) s(1) by (simp add: list_all_iff)
    then have h: "list_all hashable (dropna (col_values s))"
      by (simp add: dropna_def list_all_iff)
    show ?thesis
      by (simp add: infer_step_def g h unique_values_def py_truediv_def Let_def E_def fs
          frac_def n_def)
  qed
  have loop: "infer_schema df k = Inr (fold (\<lambda>c a. AList.update c (E c) a) (column_names df) [])"
    unfolding infer_schema_def by (rule infer_loop_fold) (rule step)
  have mem: "col_name col \<in> set (column_names df)" using assms(3) by (simp add: column_names_def)
  have look: "map_of (fold (\<lambda>c a. AList.update c (E c) a) (column_names df) []) (col_name col)
      = Some (E (col_name col))"
    using mem by (simp add: fold_update_lookup)
  have fc: "f (col_name col) = col"
    using getitem_distinct[OF dist assms(3)] by (simp add: f_def)
  define kk where "kk = isna_sum (col_values col)"
  have nc: "null_count (E (col_name col)) = kk" by (simp add: E_def fc kk_def)
  have np: "null_pct (E (col_name col)) =
      (if n = 0 then 0
       else rnd (real_of_int (round_half_even (rnd (rnd (real kk) / rnd (real n)) * 10 ^ 4))
              / 10 ^ 4))"
    by (simp add: E_def fc kk_def frac_def py_round_def)
  have bound: "\<bar>null_pct (E (col_name col)) - (if n = 0 then 0 else real kk / real n)\<bar>
      \<le> 1 / 20000 + 1 / 2 ^ 50" if small: "n < 2 ^ 53"
  proof (cases "n = 0")
    case True
    then show ?thesis by (simp add: np)
  next
    case False
    have len: "length (col_values col) = n"
      using assms(2,3) by (simp add: n_def list_all_iff)
    have kn: "kk \<le> n" using isna_sum_le[of "col_values col"] len by (simp add: kk_def)
    then have ksmall: "kk < 2 ^ 53" using small by simp
    define x0 where "x0 = real kk / real n"
    have x0: "0 \<le> x0" "x0 \<le> 1" using kn False by (simp_all add: x0_def)
    define x where "x = rnd x0"
    have x: "0 \<le> x" "x \<le> 1" using rnd_unit_interval[OF x0] by (simp_all add: x_def)
    have e1: "\<bar>x - x0\<bar> \<le> 1 / 2 ^ 52" unfolding x_def using x0 by (rule rnd_err_unit)
    have e2: "\<bar>py_round x 4 - x\<bar> \<le> 1 / 20000 + 1 / 2 ^ 52" using x by (rule py_round_4_err)
    have "null_pct (E (col_name col)) = py_round x 4"
      using False by (simp add: np py_round_def x_def x0_def rnd_of_nat[OF ksmall] rnd_of_nat[OF small])
    moreover have "\<bar>py_round x 4 - x0\<bar> \<le> 1 / 20000 + 1 / 2 ^ 50"
    proof -
      have "\<bar>py_round x 4 - x0\<bar> \<le> \<bar>py_round x 4 - x\<bar> + \<bar>x - x0\<bar>" by linarith
      with e1 e2 have "\<bar>py_round x 4 - x0\<bar> \<le> 1 / 20000 + 1 / 2 ^ 52 + 1 / 2 ^ 52"
        by linarith
      moreover have "(1::real) / 2 ^ 52 + 1 / 2 ^ 52 \<le> 1 / 2 ^ 50" by simp
      ultimately show ?thesis by linarith
    qed
    ultimately show ?thesis using False by (simp add: x0_def)
  qed
  let ?e = "E (col_name col)"
  have C: "null_count ?e = isna_sum (col_values col)" using nc by (simp only: kk_def)
  have D: "null_pct ?e =
             (if index_len df = 0 then 0
              else rnd (real_of_int (round_half_even
                     (rnd (rnd (real (null_count ?e)) / rnd (real (index_len df))) * 10 ^ 4))
                   / 10 ^ 4))"
    unfolding nc n_def[symmetric] by (rule np)
  have F: "index_len df < 2 ^ 53 \<longrightarrow>
              \<bar>null_pct ?e -
                 (if index_len df = 0 then 0
                  else real (null_count ?e) / real (index_len df))\<bar>
                \<le> 1 / 20000 + 1 / 2 ^ 50"
    unfolding nc n_def[symmetric] using bound by blast
  from loop look C D F show ?thesis by blast
qed


theorem infer_schema_null_pct_witness:
  "distinct (column_names df_160) \<and>
   list_all (\<lambda>c. length (col_values c) = index_len df_160 \<and> list_all hashable (col_values c))
     (df_columns df_160) \<and>
   infer_schema df_160 5 =
     Inr [(''a'', \<lparr>dtype_name = ''float64'', null_count = 1, null_pct = rnd (63 / 10000),
                  unique_count = 1, sample_values = [Num (Fin 1)]\<rparr>)] \<and>
   infer_schema df_no_rows 5 =
     Inr [(''a'', \<lparr>dtype_name = ''float64'', null_count = 0, null_pct = 0,
                  unique_count = 0, sample_values = []\<rparr>)]"
proof -
  have w: "distinct (column_names df_160)" by (simp add: df_160_def column_names_def)
  have h: "list_all (\<lambda>c. length (col_values c) = index_len df_160 \<and>
                       list_all hashable (col_values c)) (df_columns df_160)"
    by (simp add: df_160_def list_all_iff)
  have m: "hd (df_columns df_160) \<in> set (df_columns df_160)" by (simp add: df_160_def)
  have s: "infer_schema df_160 5 =
     Inr [(''a'', \<lparr>dtype_name = ''float64'', null_count = 1, null_pct = rnd (63 / 10000),
                  unique_count = 1, sample_values = [Num (Fin 1)]\<rparr>)]"
    by code_simp
  have z: "infer_schema df_no_rows 5 =
     Inr [(''a'', \<lparr>dtype_name = ''float64'', null_count = 0, null_pct = 0,
                  unique_count = 0, sample_values = []\<rparr>)]"
    by code_simp
  from infer_schema_null_pct[OF w h m, of 5] w h s z show ?thesis by blast
qed

end
